theory Spec2Isabelle
  imports Main
begin

section \<open>Strings\<close>

text \<open>
  Python's \<open>str\<close>, a sequence of Unicode code points, is modelled as \<open>string\<close> (a list of
  8-bit characters) holding its UTF-8 encoding: a character outside ASCII is the two to
  four bytes of its encoding. Concatenation, \<open>join\<close>, \<open>split\<close>, \<open>replace\<close> and the substring
  tests act on the encoding as they act on the code points; \<open>strip\<close> removes the encodings
  of the whitespace characters.
\<close>

definition nl :: char where
  "nl = CHR 0x0A"

text \<open>\<open>sep.join(xs)\<close>.\<close>

fun join :: "string \<Rightarrow> string list \<Rightarrow> string" where
  "join sep [] = []"
| "join sep [x] = x"
| "join sep (x # y # ys) = x @ sep @ join sep (y # ys)"

text \<open>\<open>s.startswith(pre)\<close>.\<close>

fun starts_with :: "string \<Rightarrow> string \<Rightarrow> bool" where
  "starts_with [] s = True"
| "starts_with (p # ps) [] = False"
| "starts_with (p # ps) (c # cs) = (p = c \<and> starts_with ps cs)"

text \<open>
  The characters \<open>c\<close> with \<open>c.isspace()\<close>, which \<open>strip\<close> removes, in UTF-8: the ASCII
  characters tab, line feed, vertical tab, form feed, carriage return, the four separators
  0x1C to 0x1F and the space; then U+0085 and U+00A0 (two bytes each); then U+1680,
  U+2000 to U+200A, U+2028, U+2029, U+202F, U+205F and U+3000 (three bytes each).
\<close>

definition whitespace :: "string list" where
  "whitespace =
     [[CHR 0x09], [CHR 0x0A], [CHR 0x0B], [CHR 0x0C], [CHR 0x0D],
      [CHR 0x1C], [CHR 0x1D], [CHR 0x1E], [CHR 0x1F], [CHR 0x20],
      [CHR 0xC2, CHR 0x85], [CHR 0xC2, CHR 0xA0],
      [CHR 0xE1, CHR 0x9A, CHR 0x80],
      [CHR 0xE2, CHR 0x80, CHR 0x80], [CHR 0xE2, CHR 0x80, CHR 0x81],
      [CHR 0xE2, CHR 0x80, CHR 0x82], [CHR 0xE2, CHR 0x80, CHR 0x83],
      [CHR 0xE2, CHR 0x80, CHR 0x84], [CHR 0xE2, CHR 0x80, CHR 0x85],
      [CHR 0xE2, CHR 0x80, CHR 0x86], [CHR 0xE2, CHR 0x80, CHR 0x87],
      [CHR 0xE2, CHR 0x80, CHR 0x88], [CHR 0xE2, CHR 0x80, CHR 0x89],
      [CHR 0xE2, CHR 0x80, CHR 0x8A],
      [CHR 0xE2, CHR 0x80, CHR 0xA8], [CHR 0xE2, CHR 0x80, CHR 0xA9],
      [CHR 0xE2, CHR 0x80, CHR 0xAF],
      [CHR 0xE2, CHR 0x81, CHR 0x9F],
      [CHR 0xE3, CHR 0x80, CHR 0x80]]"

text \<open>The string without its leading characters from a list of encodings: as long as the
  string starts with one of them, that one is dropped.\<close>

function lstrip_with :: "string list \<Rightarrow> string \<Rightarrow> string" where
  "lstrip_with ws s =
     (case find (\<lambda>w. w \<noteq> [] \<and> starts_with w s) ws of
        None \<Rightarrow> s
      | Some w \<Rightarrow> lstrip_with ws (drop (length w) s))"
  by pat_completeness auto

termination
proof (relation "measure (\<lambda>(ws, s). length s)")
  show "wf (measure (\<lambda>(ws, s). length s))"
    by simp
next
  fix ws :: "string list" and s w :: string
  assume "find (\<lambda>w. w \<noteq> [] \<and> starts_with w s) ws = Some w"
  then have "w \<noteq> []" and "starts_with w s"
    by (auto simp: find_Some_iff)
  then have "s \<noteq> []"
    by (cases w; cases s) auto
  with \<open>w \<noteq> []\<close> show "((ws, drop (length w) s), (ws, s)) \<in> measure (\<lambda>(ws, s). length s)"
    by simp
qed

declare lstrip_with.simps [simp del]

text \<open>\<open>s.strip()\<close>: the leading whitespace characters removed, then the trailing ones (the
  leading ones of the reversed string, each encoding reversed).\<close>

definition strip :: "string \<Rightarrow> string" where
  "strip s = rev (lstrip_with (map rev whitespace) (rev (lstrip_with whitespace s)))"

section \<open>Inline text: \<open>_rich_text_to_markdown\<close> and \<open>_extract_plain_text\<close>\<close>

text \<open>
  One item of a Notion rich-text array, with the keys the source reads:
  \<open>item.get("type")\<close>, \<open>item.get("equation", {}).get("expression", "")\<close>,
  \<open>item.get("plain_text", "")\<close>, the five flags of \<open>item.get("annotations", {})\<close>
  and \<open>item.get("href")\<close> (\<open>None\<close> when the key is absent or null).
\<close>

record rich_text_item =
  rt_type :: string
  expression :: string
  plain_text :: string
  bold :: bool
  italic :: bool
  strikethrough :: bool
  underline :: bool
  code :: bool
  href :: "string option"

text \<open>The body of the \<open>for\<close> loop of \<open>_rich_text_to_markdown\<close>: what one item appends to
  \<open>parts\<close> (\<open>None\<close> where the loop runs into \<open>continue\<close> without appending).\<close>

definition rich_text_item_to_markdown :: "rich_text_item \<Rightarrow> string option" where
  "rich_text_item_to_markdown item =
     (if rt_type item = ''equation'' then
        (if strip (expression item) \<noteq> [] then Some (''$'' @ expression item @ ''$'') else None)
      else
        let text = plain_text item in
        if text = [] then None
        else
          let text = (if bold item then ''**'' @ text @ ''**'' else text);
              text = (if italic item then ''*'' @ text @ ''*'' else text);
              text = (if strikethrough item then ''~~'' @ text @ ''~~'' else text);
              text = (if underline item then ''<u>'' @ text @ ''</u>'' else text);
              text = (if code item then ''`'' @ text @ ''`'' else text);
              text = (case href item of
                        None \<Rightarrow> text
                      | Some h \<Rightarrow> if h \<noteq> [] then ''['' @ text @ '']('' @ h @ '')'' else text)
          in Some text)"

text \<open>The loop: \<open>parts\<close> collected in order.\<close>

fun rich_text_parts :: "rich_text_item list \<Rightarrow> string list" where
  "rich_text_parts [] = []"
| "rich_text_parts (item # items) =
     (case rich_text_item_to_markdown item of
        None \<Rightarrow> rich_text_parts items
      | Some text \<Rightarrow> text # rich_text_parts items)"

definition rich_text_to_markdown :: "rich_text_item list \<Rightarrow> string" where
  "rich_text_to_markdown rich_text = join [] (rich_text_parts rich_text)"

definition extract_plain_text :: "rich_text_item list \<Rightarrow> string" where
  "extract_plain_text rich_text = join [] (map plain_text rich_text)"

section \<open>More string operations\<close>

text \<open>\<open>sub in s\<close>.\<close>

fun contains :: "string \<Rightarrow> string \<Rightarrow> bool" where
  "contains sub [] = (sub = [])"
| "contains sub (c # cs) = (starts_with sub (c # cs) \<or> contains sub cs)"

text \<open>\<open>s.replace(old, new, 1)\<close>: the leftmost occurrence of \<open>old\<close> replaced, if there is one.\<close>

fun replace_first :: "string \<Rightarrow> string \<Rightarrow> string \<Rightarrow> string" where
  "replace_first old new [] = (if old = [] then new else [])"
| "replace_first old new (c # cs) =
     (if starts_with old (c # cs) then new @ drop (length old) (c # cs)
      else c # replace_first old new cs)"

text \<open>\<open>s.replace(c, r)\<close> for a single character \<open>c\<close>.\<close>

definition replace_char :: "char \<Rightarrow> string \<Rightarrow> string \<Rightarrow> string" where
  "replace_char c r s = concat (map (\<lambda>x. if x = c then r else [x]) s)"

text \<open>
  \<open>s.lower()\<close> on the ASCII letters. The source applies it to the extension of a URL only and
  then looks the result up among six ASCII extensions; no character outside ASCII has a
  lower case made of the ASCII letters of these extensions, so leaving the other bytes as
  they are gives the same outcome of that lookup.
\<close>

definition lower_char :: "char \<Rightarrow> char" where
  "lower_char c =
     (let n = (of_char c :: nat) in if 65 \<le> n \<and> n \<le> 90 then char_of (n + 32) else c)"

definition lower :: "string \<Rightarrow> string" where
  "lower s = map lower_char s"

text \<open>\<open>s.rfind(c)\<close>: the index of the last occurrence of \<open>c\<close>, or -1.\<close>

definition rfind :: "char \<Rightarrow> string \<Rightarrow> int" where
  "rfind c s =
     (if c \<in> set s then int (length s) - 1 - int (length (takeWhile (\<lambda>x. x \<noteq> c) (rev s)))
      else - 1)"

text \<open>\<open>s[i:j]\<close> for \<open>0 \<le> i\<close>.\<close>

definition slice :: "string \<Rightarrow> int \<Rightarrow> int \<Rightarrow> string" where
  "slice s i j = take (nat (j - i)) (drop (nat i) s)"

text \<open>
  \<open>os.path.splitext(p)[1]\<close> of the Python standard library on POSIX
  (\<open>genericpath._splitext\<close> with \<open>sep = "/"\<close>, no \<open>altsep\<close>, \<open>extsep = "."\<close>): the extension
  starts at the last dot, when that dot comes after the last slash and some character
  between the slash and the dot is not a dot (the library's loop over \<open>filenameIndex\<close>
  returns at the first such character); otherwise the extension is empty.
\<close>

definition splitext_ext :: "string \<Rightarrow> string" where
  "splitext_ext p =
     (let sepIndex = rfind CHR ''/'' p;
          dotIndex = rfind CHR ''.'' p
      in if dotIndex > sepIndex \<and>
            list_ex (\<lambda>c. c \<noteq> CHR ''.'') (slice p (sepIndex + 1) dotIndex)
         then drop (nat dotIndex) p
         else [])"

text \<open>Decimal digits of a number, and the format \<open>{n:03d}\<close>.\<close>

fun dec_digits :: "nat \<Rightarrow> string" where
  "dec_digits n =
     (if n < 10 then [''0123456789'' ! n]
      else dec_digits (n div 10) @ [''0123456789'' ! (n mod 10)])"

declare dec_digits.simps [simp del]

definition fmt_03d :: "nat \<Rightarrow> string" where
  "fmt_03d n = (let d = dec_digits n in replicate (3 - length d) CHR ''0'' @ d)"

section \<open>Images: \<open>_get_image_url\<close>, \<open>_get_extension\<close>, \<open>_download_image\<close>\<close>

text \<open>
  A Notion image object (an image block's payload, or a page's cover) with the keys the
  source reads: \<open>get("type")\<close> (\<open>None\<close> when absent), \<open>get("external", {}).get("url", "")\<close>,
  \<open>get("file", {}).get("url", "")\<close> and \<open>get("caption", [])\<close>.
\<close>

record image_obj =
  img_type :: "string option"
  external_url :: string
  file_url :: string
  caption :: "rich_text_item list"

definition get_image_url :: "image_obj \<Rightarrow> string" where
  "get_image_url image_obj =
     (if img_type image_obj = Some ''external'' then external_url image_obj
      else if img_type image_obj = Some ''file'' then file_url image_obj
      else [])"

definition image_exts :: "string list" where
  "image_exts = [''.jpg'', ''.jpeg'', ''.png'', ''.gif'', ''.webp'', ''.svg'']"

definition get_extension :: "string \<Rightarrow> string" where
  "get_extension url =
     (let clean_url = takeWhile (\<lambda>c. c \<noteq> CHR ''?'') url;
          ext = lower (splitext_ext clean_url)
      in if CHR ''.'' \<in> set clean_url \<and> ext \<in> set image_exts then ext
         else if contains ''amazonaws.com'' url \<or> contains ''notion'' url then ''.png''
         else ''.jpg'')"

text \<open>
  The state of one \<open>NotionArticleFetcher\<close>: the attributes \<open>images\<close> (the ledger) and
  \<open>image_counter\<close>. The third field is not an attribute of the class: it is the trace of the
  calls of \<open>_download_image\<close>, each with its URL and its local path, that is, of the
  requests sent and the files written.
\<close>

record resource =
  original_url :: string
  local_path :: string
  res_type :: string

record session =
  images :: "resource list"
  image_counter :: nat
  requests :: "(string \<times> string) list"

text \<open>
  \<open>_download_image\<close> returns \<open>True\<close> when the request and the write succeed and \<open>False\<close> on
  any exception, which it catches. Whether a download succeeds is decided outside the
  program: the parameter \<open>fetch\<close> gives the outcome for each URL and local path (within one
  conversion no two calls have the same local path).
\<close>

type_synonym fetch = "string \<Rightarrow> string \<Rightarrow> bool"

definition download_image :: "fetch \<Rightarrow> string \<Rightarrow> string \<Rightarrow> session \<Rightarrow> bool \<times> session" where
  "download_image fetch url path s = (fetch url path, s\<lparr>requests := requests s @ [(url, path)]\<rparr>)"

text \<open>\<open>images_dir / filename\<close> for a file name without a slash, as a string.\<close>

definition path_join :: "string \<Rightarrow> string \<Rightarrow> string" where
  "path_join dir filename = dir @ ''/'' @ filename"

definition image_markup :: "string \<Rightarrow> string \<Rightarrow> string" where
  "image_markup alt target = ''!['' @ alt @ '']('' @ target @ '')''"

definition image_block_to_markdown ::
    "fetch \<Rightarrow> string \<Rightarrow> image_obj \<Rightarrow> session \<Rightarrow> string \<times> session" where
  "image_block_to_markdown fetch images_dir image_block s =
     (let url = get_image_url image_block in
      if url = [] then ([], s)
      else
        let s1 = s\<lparr>image_counter := image_counter s + 1\<rparr>;
            ext = get_extension url;
            filename = ''image_'' @ fmt_03d (image_counter s1) @ ext;
            path = path_join images_dir filename;
            image_type = (case img_type image_block of None \<Rightarrow> ''external'' | Some t \<Rightarrow> t);
            (ok, s2) = download_image fetch url path s1
        in if ok then
             let s3 = s2\<lparr>images := images s2 @
                         [\<lparr>original_url = url, local_path = path, res_type = image_type\<rparr>]\<rparr>;
                 cap = extract_plain_text (caption image_block)
             in (if cap \<noteq> [] then image_markup cap path else image_markup [] path, s3)
           else
             let cap = extract_plain_text (caption image_block)
             in (if cap \<noteq> [] then image_markup cap url else image_markup [] url, s2))"

section \<open>Blocks: \<open>_block_to_markdown\<close>, \<open>_table_to_markdown\<close>, \<open>_blocks_to_markdown\<close>\<close>

text \<open>
  A block is a dictionary with a \<open>type\<close> tag and, under the key of that name, the payload of
  the type. The payloads carry what \<open>_block_to_markdown\<close> reads: the \<open>rich_text\<close> array,
  \<open>checked\<close> of a to-do, \<open>language\<close> of a code block, \<open>expression\<close> of an equation, \<open>url\<close>
  and \<open>caption\<close> of a bookmark, the emoji of a callout's icon (empty when the callout has
  no \<open>icon\<close> key or the icon has no emoji) and the \<open>cells\<close> of a table row. \<open>Unhandled\<close>
  stands for every other type tag. The values are those of well-formed payloads: a payload
  on which the source raises (a callout whose \<open>icon\<close> is null, on which \<open>.get\<close> fails and
  the whole conversion aborts) is not a value of this type.
\<close>

datatype payload =
    Paragraph "rich_text_item list"
  | Heading_1 "rich_text_item list"
  | Heading_2 "rich_text_item list"
  | Heading_3 "rich_text_item list"
  | Bulleted_list_item "rich_text_item list"
  | Numbered_list_item "rich_text_item list"
  | To_do bool "rich_text_item list"
  | Quote "rich_text_item list"
  | Code string "rich_text_item list"
  | Equation string
  | Image image_obj
  | Bookmark string "rich_text_item list"
  | Callout string "rich_text_item list"
  | Divider
  | Table
  | Table_row "rich_text_item list list"
  | Unhandled

text \<open>
  The children of a block are not part of its dictionary: the source fetches them with
  \<open>_get_all_blocks(block["id"])\<close>. The field \<open>children\<close> is the list that call returns for
  the block; \<open>has_children\<close> is the flag of the dictionary.
\<close>

datatype block = Block (payload: payload) (has_children: bool) (children: "block list")

definition indent_of :: "nat \<Rightarrow> string" where
  "indent_of depth = concat (replicate depth ''  '')"

text \<open>The body of the loop of \<open>_table_to_markdown\<close> from index \<open>i\<close> on: the lines appended to
  \<open>md_rows\<close>.\<close>

fun table_rows :: "nat \<Rightarrow> block list \<Rightarrow> string list" where
  "table_rows i [] = []"
| "table_rows i (row # rows) =
     (case payload row of
        Table_row cells \<Rightarrow>
          (let cell_texts =
                 map (\<lambda>cell. replace_char nl ''<br>''
                                (replace_char CHR ''|'' [CHR 0x5C, CHR ''|'']
                                   (rich_text_to_markdown cell))) cells;
               line = ''| '' @ join '' | '' cell_texts @ '' |'';
               separator = ''| '' @ join '' | '' (replicate (length cells) ''---'') @ '' |''
           in line # (if i = 0 then [separator] else []) @ table_rows (i + 1) rows)
      | _ \<Rightarrow> table_rows (i + 1) rows)"

definition table_to_markdown :: "block \<Rightarrow> string" where
  "table_to_markdown table_block =
     (let rows = children table_block in
      if rows = [] then ''<!-- Empty table -->''
      else join [nl] (table_rows 0 rows))"

definition block_to_markdown ::
    "fetch \<Rightarrow> string \<Rightarrow> block \<Rightarrow> nat \<Rightarrow> session \<Rightarrow> string \<times> session" where
  "block_to_markdown fetch images_dir block depth s =
     (let indent = indent_of depth in
      case payload block of
        Paragraph rt \<Rightarrow> (rich_text_to_markdown rt, s)
      | Heading_1 rt \<Rightarrow> (''# '' @ rich_text_to_markdown rt, s)
      | Heading_2 rt \<Rightarrow> (''## '' @ rich_text_to_markdown rt, s)
      | Heading_3 rt \<Rightarrow> (''### '' @ rich_text_to_markdown rt, s)
      | Bulleted_list_item rt \<Rightarrow> (indent @ ''- '' @ rich_text_to_markdown rt, s)
      | Numbered_list_item rt \<Rightarrow> (indent @ ''1. '' @ rich_text_to_markdown rt, s)
      | To_do checked rt \<Rightarrow>
          (indent @ ''- ['' @ (if checked then ''x'' else '' '') @ ''] '' @
             rich_text_to_markdown rt, s)
      | Quote rt \<Rightarrow> (''> '' @ rich_text_to_markdown rt, s)
      | Code language rt \<Rightarrow>
          (''```'' @ language @ [nl] @ extract_plain_text rt @ [nl] @ ''```'', s)
      | Equation e \<Rightarrow> (if strip e \<noteq> [] then ''$$'' @ [nl] @ e @ [nl] @ ''$$'' else [], s)
      | Image image_block \<Rightarrow> image_block_to_markdown fetch images_dir image_block s
      | Bookmark url cap \<Rightarrow>
          (let c = extract_plain_text cap in
           if c \<noteq> [] then ''['' @ c @ '']('' @ url @ '')''
           else ''['' @ url @ '']('' @ url @ '')'', s)
      | Callout icon rt \<Rightarrow>
          (let text = rich_text_to_markdown rt;
               content = (if icon \<noteq> [] then icon @ '' '' @ text else text)
           in ''> '' @ content, s)
      | Divider \<Rightarrow> (''---'', s)
      | Table \<Rightarrow> (table_to_markdown block, s)
      | Table_row cells \<Rightarrow> ([], s)
      | Unhandled \<Rightarrow> ([], s))"

text \<open>\<open>child_depth\<close> of \<open>_blocks_to_markdown\<close>: \<open>depth + 1\<close> when the type of the block is one of
  \<open>bulleted_list_item\<close>, \<open>numbered_list_item\<close>, \<open>to_do\<close>, and \<open>depth\<close> otherwise.\<close>

definition child_depth :: "payload \<Rightarrow> nat \<Rightarrow> nat" where
  "child_depth p depth =
     (case p of
        Bulleted_list_item rt \<Rightarrow> depth + 1
      | Numbered_list_item rt \<Rightarrow> depth + 1
      | To_do checked rt \<Rightarrow> depth + 1
      | _ \<Rightarrow> depth)"

text \<open>
  The loop of \<open>_blocks_to_markdown\<close>: the list \<open>lines\<close> it builds, the session threaded through
  the blocks in order, each block rendered before its children and its children before the
  next block. The recursive call on the children returns their lines joined.
\<close>

fun blocks_lines :: "fetch \<Rightarrow> string \<Rightarrow> block list \<Rightarrow> nat \<Rightarrow> session \<Rightarrow> string list \<times> session" where
  "blocks_lines fetch images_dir [] depth s = ([], s)"
| "blocks_lines fetch images_dir (Block p hc ch # blocks) depth s =
     (let r1 = block_to_markdown fetch images_dir (Block p hc ch) depth s;
          lines1 = (if fst r1 \<noteq> [] then [fst r1] else []);
          r2 = (if hc then
                  let rc = blocks_lines fetch images_dir ch (child_depth p depth) (snd r1);
                      child_md = join [nl, nl] (fst rc)
                  in (if child_md \<noteq> [] then [child_md] else [], snd rc)
                else ([], snd r1));
          r3 = blocks_lines fetch images_dir blocks depth (snd r2)
      in (lines1 @ fst r2 @ fst r3, snd r3))"

definition blocks_to_markdown ::
    "fetch \<Rightarrow> string \<Rightarrow> block list \<Rightarrow> nat \<Rightarrow> session \<Rightarrow> string \<times> session" where
  "blocks_to_markdown fetch images_dir blocks depth s =
     (let r = blocks_lines fetch images_dir blocks depth s in (join [nl, nl] (fst r), snd r))"

section \<open>The page: \<open>_process_page\<close>\<close>

text \<open>
  A page with what \<open>_process_page\<close> reads: the rich text of the properties \<open>title\<close>, \<open>Name\<close>
  and \<open>slug\<close> (empty when the property is absent), the cover (\<open>None\<close> when absent or empty)
  and the blocks \<open>_get_all_blocks(page["id"])\<close> returns.
\<close>

record page =
  title_property :: "rich_text_item list"
  name_property :: "rich_text_item list"
  slug_property :: "rich_text_item list"
  cover :: "image_obj option"
  content :: "block list"

record article =
  title :: string
  slug :: string
  markdown :: string
  article_images :: "resource list"
  cover_image :: "string option"

text \<open>The two steps that put the title and the cover in front of the body.\<close>

definition title_block :: "string \<Rightarrow> string" where
  "title_block t = ''# '' @ t @ [nl, nl]"

definition add_title :: "string \<Rightarrow> string \<Rightarrow> string" where
  "add_title t md = (if t \<noteq> [] then title_block t @ md else md)"

definition cover_markup :: "string \<Rightarrow> string" where
  "cover_markup c = ''![cover]('' @ c @ '')'' @ [nl, nl]"

definition add_cover :: "string \<Rightarrow> string option \<Rightarrow> string \<Rightarrow> string" where
  "add_cover t c md =
     (case c of
        None \<Rightarrow> md
      | Some cp \<Rightarrow>
          if cp \<noteq> [] then replace_first (title_block t) (title_block t @ cover_markup cp) md
          else md)"

definition process_cover :: "fetch \<Rightarrow> string \<Rightarrow> image_obj option \<Rightarrow> session \<Rightarrow> string option \<times> session" where
  "process_cover fetch images_dir cov s =
     (case cov of
        None \<Rightarrow> (None, s)
      | Some cv \<Rightarrow>
          let cover_url = get_image_url cv in
          if cover_url = [] then (None, s)
          else
            let cover_path = path_join images_dir (''cover'' @ get_extension cover_url);
                (ok, s1) = download_image fetch cover_url cover_path s
            in if ok then
                 (Some cover_path,
                  s1\<lparr>images := images s1 @
                       [\<lparr>original_url = cover_url, local_path = cover_path, res_type = ''cover''\<rparr>]\<rparr>)
               else (None, s1))"

definition process_page :: "fetch \<Rightarrow> string \<Rightarrow> page \<Rightarrow> session \<Rightarrow> article \<times> session" where
  "process_page fetch images_dir pg s =
     (let s0 = s\<lparr>images := [], image_counter := 0\<rparr>;
          t = extract_plain_text (title_property pg);
          t = (if t = [] then extract_plain_text (name_property pg) else t);
          sl = extract_plain_text (slug_property pg);
          (cov, s1) = process_cover fetch images_dir (cover pg) s0;
          (md, s2) = blocks_to_markdown fetch images_dir (content pg) 0 s1;
          md = add_title t md;
          md = add_cover t cov md
      in (\<lparr>title = t, slug = sl, markdown = md, article_images = images s2,
           cover_image = cov\<rparr>, s2))"

text \<open>
  The reading of the specification's style order used to state the results: the six
  wrappers in the listed order, the ones a span asks for, and one wrapper put around a text.
\<close>

datatype style = Bold | Italic | Strikethrough | Underline | Inline_code | Link

definition listed_order :: "style list" where
  "listed_order = [Bold, Italic, Strikethrough, Underline, Inline_code, Link]"

fun has_style :: "rich_text_item \<Rightarrow> style \<Rightarrow> bool" where
  "has_style item Bold = bold item"
| "has_style item Italic = italic item"
| "has_style item Strikethrough = strikethrough item"
| "has_style item Underline = underline item"
| "has_style item Inline_code = code item"
| "has_style item Link = (case href item of None \<Rightarrow> False | Some h \<Rightarrow> h \<noteq> [])"

fun wrap_in :: "rich_text_item \<Rightarrow> style \<Rightarrow> string \<Rightarrow> string" where
  "wrap_in item Bold t = ''**'' @ t @ ''**''"
| "wrap_in item Italic t = ''*'' @ t @ ''*''"
| "wrap_in item Strikethrough t = ''~~'' @ t @ ''~~''"
| "wrap_in item Underline t = ''<u>'' @ t @ ''</u>''"
| "wrap_in item Inline_code t = ''`'' @ t @ ''`''"
| "wrap_in item Link t =
     ''['' @ t @ '']('' @ (case href item of None \<Rightarrow> [] | Some h \<Rightarrow> h) @ '')''"

text \<open>The first style of the list innermost, the last one outermost.\<close>

definition wrap_innermost_first :: "rich_text_item \<Rightarrow> style list \<Rightarrow> string \<Rightarrow> string" where
  "wrap_innermost_first item ss t = foldl (\<lambda>acc s. wrap_in item s acc) t ss"

text \<open>The first style of the list outermost, the last one innermost.\<close>

definition wrap_outermost_first :: "rich_text_item \<Rightarrow> style list \<Rightarrow> string \<Rightarrow> string" where
  "wrap_outermost_first item ss t = foldr (\<lambda>s acc. wrap_in item s acc) ss t"

text \<open>
  A blank expression: nothing but whitespace characters. The whitespace characters are
  given by their code points, and \<open>utf8\<close> is the encoding of a code point.
\<close>

definition space_code_points :: "nat list" where
  "space_code_points =
     [0x09, 0x0A, 0x0B, 0x0C, 0x0D, 0x1C, 0x1D, 0x1E, 0x1F, 0x20, 0x85, 0xA0, 0x1680,
      0x2000, 0x2001, 0x2002, 0x2003, 0x2004, 0x2005, 0x2006, 0x2007, 0x2008, 0x2009, 0x200A,
      0x2028, 0x2029, 0x202F, 0x205F, 0x3000]"

definition utf8 :: "nat \<Rightarrow> string" where
  "utf8 n =
     (if n < 0x80 then [char_of n]
      else if n < 0x800 then [char_of (0xC0 + n div 0x40), char_of (0x80 + n mod 0x40)]
      else if n < 0x10000 then
        [char_of (0xE0 + n div 0x1000), char_of (0x80 + n div 0x40 mod 0x40),
         char_of (0x80 + n mod 0x40)]
      else
        [char_of (0xF0 + n div 0x40000), char_of (0x80 + n div 0x1000 mod 0x40),
         char_of (0x80 + n div 0x40 mod 0x40), char_of (0x80 + n mod 0x40)])"

inductive blank :: "string \<Rightarrow> bool" where
  blank_empty: "blank []"
| blank_space: "cp \<in> set space_code_points \<Longrightarrow> blank s \<Longrightarrow> blank (utf8 cp @ s)"

text \<open>The length of a UTF-8 sequence, from its first byte.\<close>

definition seq_len :: "char \<Rightarrow> nat" where
  "seq_len c =
     (let n = (of_char c :: nat) in
      if n < 0x80 then 1 else if n < 0xE0 then 2 else if n < 0xF0 then 3 else 4)"

text \<open>The list-item kinds, whose children are rendered one level deeper.\<close>

definition is_list_item :: "payload \<Rightarrow> bool" where
  "is_list_item p =
     (case p of
        Bulleted_list_item rt \<Rightarrow> True
      | Numbered_list_item rt \<Rightarrow> True
      | To_do checked rt \<Rightarrow> True
      | _ \<Rightarrow> False)"

text \<open>The line of a table row, the separator line for \<open>n\<close> columns, and the lines of the rows
  of a table without any separator.\<close>

definition row_line :: "rich_text_item list list \<Rightarrow> string" where
  "row_line cells =
     ''| '' @ join '' | '' (map (\<lambda>cell. replace_char nl ''<br>''
                                (replace_char CHR ''|'' [CHR 0x5C, CHR ''|'']
                                   (rich_text_to_markdown cell))) cells) @ '' |''"

definition separator_line :: "nat \<Rightarrow> string" where
  "separator_line n = ''| '' @ join '' | '' (replicate n ''---'') @ '' |''"

fun row_lines :: "block list \<Rightarrow> string list" where
  "row_lines [] = []"
| "row_lines (row # rows) =
     (case payload row of
        Table_row cells \<Rightarrow> row_line cells # row_lines rows
      | _ \<Rightarrow> row_lines rows)"

text \<open>
  The URLs of the image blocks that have one, in the order of the traversal: a block before
  its children (visited when \<open>has_children\<close> is set), its children before the next block.
\<close>

definition own_image_urls :: "payload \<Rightarrow> string list" where
  "own_image_urls p =
     (case p of
        Image image_block \<Rightarrow>
          (if get_image_url image_block \<noteq> [] then [get_image_url image_block] else [])
      | _ \<Rightarrow> [])"

fun image_urls :: "block list \<Rightarrow> string list" where
  "image_urls [] = []"
| "image_urls (Block p hc ch # blocks) =
     own_image_urls p @ (if hc then image_urls ch else []) @ image_urls blocks"

text \<open>The local path of the image numbered \<open>n\<close>, and the download requests of a list of URLs
  numbered from \<open>c + 1\<close> on.\<close>

definition image_path :: "string \<Rightarrow> nat \<Rightarrow> string \<Rightarrow> string" where
  "image_path dir n url = path_join dir (''image_'' @ fmt_03d n @ get_extension url)"

definition numbered_requests :: "string \<Rightarrow> nat \<Rightarrow> string list \<Rightarrow> (string \<times> string) list" where
  "numbered_requests dir c urls =
     map (\<lambda>(n, u). (u, image_path dir n u)) (enumerate (c + 1) urls)"

text \<open>The session of \<open>_process_page\<close> after the reset and the cover, before the blocks.\<close>

definition after_cover :: "fetch \<Rightarrow> string \<Rightarrow> page \<Rightarrow> session \<Rightarrow> session" where
  "after_cover fetch dir pg s =
     snd (process_cover fetch dir (cover pg) (s\<lparr>images := [], image_counter := 0\<rparr>))"

text \<open>The title \<open>_process_page\<close> extracts, the cover it downloads (if any) and the body it
  renders from the blocks.\<close>

definition page_title :: "page \<Rightarrow> string" where
  "page_title pg =
     (if extract_plain_text (title_property pg) = [] then extract_plain_text (name_property pg)
      else extract_plain_text (title_property pg))"

definition page_cover :: "fetch \<Rightarrow> string \<Rightarrow> page \<Rightarrow> session \<Rightarrow> string option" where
  "page_cover fetch dir pg s =
     fst (process_cover fetch dir (cover pg) (s\<lparr>images := [], image_counter := 0\<rparr>))"

definition page_body :: "fetch \<Rightarrow> string \<Rightarrow> page \<Rightarrow> session \<Rightarrow> string" where
  "page_body fetch dir pg s =
     fst (blocks_to_markdown fetch dir (content pg) 0 (after_cover fetch dir pg s))"

text \<open>
  The notions used to state extension inference: the URL without its query string, a string
  ending in an extension up to the case of ASCII letters, the last component of a path, a
  path having an extension (it ends in it, and what precedes the extension in the last
  component is not made of dots only), and the test on the origin of the URL.
\<close>

definition without_query :: "string \<Rightarrow> string" where
  "without_query url = takeWhile (\<lambda>c. c \<noteq> CHR ''?'') url"

definition ends_with_ci :: "string \<Rightarrow> string \<Rightarrow> bool" where
  "ends_with_ci s e = (length e \<le> length s \<and> lower (drop (length s - length e) s) = e)"

definition last_component :: "string \<Rightarrow> string" where
  "last_component s = rev (takeWhile (\<lambda>c. c \<noteq> CHR ''/'') (rev s))"

definition has_extension :: "string \<Rightarrow> string \<Rightarrow> bool" where
  "has_extension s e =
     (ends_with_ci s e \<and>
      list_ex (\<lambda>c. c \<noteq> CHR ''.'') (last_component (take (length s - length e) s)))"

definition cloud_origin :: "string \<Rightarrow> bool" where
  "cloud_origin url = (contains ''amazonaws.com'' url \<or> contains ''notion'' url)"

text \<open>The shape of the six extensions: a dot, then neither a dot nor a slash.\<close>

definition ext_shape :: "string \<Rightarrow> bool" where
  "ext_shape e =
     (case e of
        [] \<Rightarrow> False
      | c # r \<Rightarrow> c = CHR ''.'' \<and> CHR ''.'' \<notin> set r \<and> CHR ''/'' \<notin> set r)"

section \<open>Concrete inputs\<close>

definition plain :: "string \<Rightarrow> rich_text_item" where
  "plain t = \<lparr>rt_type = ''text'', expression = [], plain_text = t, bold = False, italic = False,
     strikethrough = False, underline = False, code = False, href = None\<rparr>"

definition external_image :: "string \<Rightarrow> image_obj" where
  "external_image u = \<lparr>img_type = Some ''external'', external_url = u, file_url = [], caption = []\<rparr>"

definition new_session :: session where
  "new_session = \<lparr>images = [], image_counter = 0, requests = []\<rparr>"

definition styled_equation :: "string \<Rightarrow> rich_text_item" where
  "styled_equation e = \<lparr>rt_type = ''equation'', expression = e, plain_text = e,
     bold = True, italic = True, strikethrough = False, underline = False, code = True,
     href = Some ''http://a''\<rparr>"

definition bold_italic :: rich_text_item where
  "bold_italic = \<lparr>rt_type = ''text'', expression = [], plain_text = ''text'', bold = True,
     italic = True, strikethrough = False, underline = False, code = False, href = None\<rparr>"

definition bold_code :: rich_text_item where
  "bold_code = \<lparr>rt_type = ''text'', expression = [], plain_text = ''t'', bold = True,
     italic = False, strikethrough = False, underline = False, code = True, href = None\<rparr>"

definition nested_todo :: "block list" where
  "nested_todo =
     [Block (Bulleted_list_item [plain ''a'']) True
        [Block (To_do True [plain ''Ship it'']) False []]]"

definition skipped_first_child :: block where
  "skipped_first_child =
     Block Table True [Block Unhandled False [], Block (Table_row [[plain ''a'']]) False []]"

definition untitled_page :: page where
  "untitled_page =
     \<lparr>title_property = [], name_property = [], slug_property = [],
      cover = Some (external_image ''http://a/c.png''),
      content = [Block (Heading_2 []) False [], Block (Paragraph [plain ''x'']) False []]\<rparr>"

definition captioned_image :: image_obj where
  "captioned_image = \<lparr>img_type = Some ''file'', external_url = [], file_url = ''http://a/b.png'',
     caption = [plain ''A '', plain ''cat'']\<rparr>"

definition used_session :: session where
  "used_session =
     \<lparr>images = [\<lparr>original_url = ''http://a/c.gif'', local_path = ''images/cover.gif'',
                  res_type = ''cover''\<rparr>],
      image_counter = 4,
      requests = [(''http://a/c.gif'', ''images/cover.gif'')]\<rparr>"

definition page_of :: "block list \<Rightarrow> page" where
  "page_of blocks = \<lparr>title_property = [], name_property = [], slug_property = [], cover = None,
     content = blocks\<rparr>"

definition two_image_blocks :: "block list" where
  "two_image_blocks =
     [Block (Image (external_image [])) False [],
      Block (Image (external_image ''http://a/b.png'')) False []]"

section \<open>Inline text: results\<close>

lemma join_empty_sep: "join [] xs = concat xs"
  by (induction "[] :: string" xs rule: join.induct) simp_all

lemma rich_text_parts_append:
  "rich_text_parts (a @ b) = rich_text_parts a @ rich_text_parts b"
  by (induction a) (simp_all split: option.split)

text \<open>
  C8. Inline rendering distributes over concatenation of span sequences: the rendering of
  \<open>a @ b\<close> is the rendering of \<open>a\<close> followed by the rendering of \<open>b\<close>, with no separator.
\<close>

theorem rich_text_to_markdown_append:
  "rich_text_to_markdown (a @ b) = rich_text_to_markdown a @ rich_text_to_markdown b"
  by (simp add: rich_text_to_markdown_def join_empty_sep rich_text_parts_append)

lemma utf8_space_code_points: "map utf8 space_code_points = whitespace"
  by (simp add: whitespace_def space_code_points_def utf8_def char_of_eq_iff)

lemma whitespace_lengths: "list_all (\<lambda>w. w \<noteq> [] \<and> length w = seq_len (hd w)) whitespace"
  by (simp add: whitespace_def seq_len_def)

lemma starts_with_iff: "starts_with w s \<longleftrightarrow> take (length w) s = w"
  by (induction w s rule: starts_with.induct) auto

lemma starts_with_append: "starts_with w (w @ r)"
  by (simp add: starts_with_iff)

lemma whitespace_prefix_free:
  assumes "w \<in> set whitespace" and "v \<in> set whitespace" and "starts_with v (w @ r)"
  shows "v = w"
proof -
  from assms(1,2) whitespace_lengths
  have w: "w \<noteq> []" "length w = seq_len (hd w)" and v: "v \<noteq> []" "length v = seq_len (hd v)"
    by (auto simp: list_all_iff)
  from assms(3) have t: "take (length v) (w @ r) = v"
    by (simp add: starts_with_iff)
  with w(1) v(1) have "hd v = hd w"
    by (cases w; cases v) auto
  with w(2) v(2) have "length v = length w" by simp
  with t show ?thesis by simp
qed

lemma find_whitespace:
  assumes "w \<in> set whitespace"
  shows "find (\<lambda>v. v \<noteq> [] \<and> starts_with v (w @ r)) whitespace = Some w"
proof -
  from assms whitespace_lengths have ne: "w \<noteq> []"
    by (auto simp: list_all_iff)
  let ?P = "\<lambda>v. v \<noteq> [] \<and> starts_with v (w @ r)"
  have "?P w" using ne by (simp add: starts_with_append)
  with assms have "find ?P whitespace \<noteq> None"
    by (auto simp: find_None_iff)
  then obtain v where f: "find ?P whitespace = Some v" by auto
  then have "v \<in> set whitespace" and "starts_with v (w @ r)"
    by (auto simp: find_Some_iff)
  with assms have "v = w" by (rule whitespace_prefix_free)
  with f show ?thesis by simp
qed

lemma lstrip_whitespace: "w \<in> set whitespace \<Longrightarrow> lstrip_with whitespace (w @ r) = lstrip_with whitespace r"
  by (subst lstrip_with.simps) (simp add: find_whitespace)

lemma lstrip_with_Nil: "lstrip_with ws [] = []"
proof -
  have "find (\<lambda>w. w \<noteq> [] \<and> starts_with w []) ws = None"
    by (auto simp: find_None_iff starts_with_iff)
  then show ?thesis by (subst lstrip_with.simps) simp
qed

lemma blank_lstrip: "blank s \<Longrightarrow> lstrip_with whitespace s = []"
proof (induction rule: blank.induct)
  case blank_empty
  show ?case by (rule lstrip_with_Nil)
next
  case (blank_space cp s)
  then have "utf8 cp \<in> set whitespace"
    unfolding utf8_space_code_points [symmetric] by simp
  then show ?case using blank_space.IH by (simp add: lstrip_whitespace)
qed

lemma lstrip_blank: "lstrip_with whitespace s = [] \<Longrightarrow> blank s"
proof (induction whitespace s rule: lstrip_with.induct)
  case (1 s)
  let ?P = "\<lambda>w. w \<noteq> [] \<and> starts_with w s"
  show ?case
  proof (cases "find ?P whitespace")
    case None
    with "1.prems" have "s = []" by (subst (asm) lstrip_with.simps) simp
    then show ?thesis by (simp add: blank_empty)
  next
    case (Some w)
    then have w: "w \<in> set whitespace" and sw: "starts_with w s"
      by (auto simp: find_Some_iff)
    from "1.prems" Some have "lstrip_with whitespace (drop (length w) s) = []"
      by (subst (asm) lstrip_with.simps) simp
    with "1.hyps" [OF Some] have b: "blank (drop (length w) s)" .
    from w obtain cp where cp: "cp \<in> set space_code_points" "w = utf8 cp"
      unfolding utf8_space_code_points [symmetric] by auto
    from sw have "s = w @ drop (length w) s"
      by (metis append_take_drop_id starts_with_iff)
    with blank_space [OF cp(1) b] cp(2) show ?thesis by simp
  qed
qed

lemma lstrip_with_no_prefix:
  "find (\<lambda>w. w \<noteq> [] \<and> starts_with w (lstrip_with ws s)) ws = None"
proof (induction ws s rule: lstrip_with.induct)
  case (1 ws s)
  show ?case
  proof (cases "find (\<lambda>w. w \<noteq> [] \<and> starts_with w s) ws")
    case None
    then have "lstrip_with ws s = s" by (subst lstrip_with.simps) simp
    with None show ?thesis by simp
  next
    case (Some w)
    then have "lstrip_with ws s = lstrip_with ws (drop (length w) s)"
      by (subst lstrip_with.simps) simp
    with "1.IH" [OF Some] show ?thesis by simp
  qed
qed

lemma lstrip_with_concat:
  "lstrip_with ws s = [] \<Longrightarrow> \<exists>us. set us \<subseteq> set ws \<and> s = concat us"
proof (induction ws s rule: lstrip_with.induct)
  case (1 ws s)
  show ?case
  proof (cases "find (\<lambda>w. w \<noteq> [] \<and> starts_with w s) ws")
    case None
    with "1.prems" have "s = []" by (subst (asm) lstrip_with.simps) simp
    then have "set [] \<subseteq> set ws \<and> s = concat []" by simp
    then show ?thesis by blast
  next
    case (Some w)
    then have w: "w \<in> set ws" and sw: "starts_with w s"
      by (auto simp: find_Some_iff)
    from "1.prems" Some have "lstrip_with ws (drop (length w) s) = []"
      by (subst (asm) lstrip_with.simps) simp
    with "1.IH" [OF Some] obtain us where us: "set us \<subseteq> set ws" "drop (length w) s = concat us"
      by blast
    from sw have "s = w @ drop (length w) s"
      by (metis append_take_drop_id starts_with_iff)
    with us w have "set (w # us) \<subseteq> set ws \<and> s = concat (w # us)" by simp
    then show ?thesis by blast
  qed
qed

lemma strip_empty_lstrip: "strip s = [] \<longleftrightarrow> lstrip_with whitespace s = []"
proof
  assume "lstrip_with whitespace s = []"
  then show "strip s = []" by (simp add: strip_def lstrip_with_Nil)
next
  assume a: "strip s = []"
  let ?t = "lstrip_with whitespace s"
  from a have "lstrip_with (map rev whitespace) (rev ?t) = []"
    by (simp add: strip_def)
  then obtain us where us: "set us \<subseteq> set (map rev whitespace)" "rev ?t = concat us"
    using lstrip_with_concat by blast
  show "?t = []"
  proof (rule ccontr)
    assume ne: "?t \<noteq> []"
    from us(2) ne have "us \<noteq> []" by auto
    then obtain us' u where vs: "us = us' @ [u]" by (cases us rule: rev_cases) auto
    with us(1) obtain w where w: "w \<in> set whitespace" "u = rev w" by auto
    from w(1) whitespace_lengths have w_ne: "w \<noteq> []" by (auto simp: list_all_iff)
    have "rev ?t = concat us' @ rev w"
      unfolding us(2) vs w(2) by simp
    then have "rev (rev ?t) = rev (concat us' @ rev w)" by (rule arg_cong)
    then have "?t = w @ rev (concat us')" by (simp only: rev_rev_ident rev_append)
    then have "starts_with w ?t" by (metis starts_with_append)
    with w_ne have "find (\<lambda>w. w \<noteq> [] \<and> starts_with w ?t) whitespace \<noteq> None"
      using w(1) by (auto simp: find_None_iff)
    then show False by (simp add: lstrip_with_no_prefix)
  qed
qed

lemma strip_empty_iff: "strip s = [] \<longleftrightarrow> blank s"
  using strip_empty_lstrip blank_lstrip lstrip_blank by blast

lemma render_single:
  "rich_text_to_markdown [item] =
     (case rich_text_item_to_markdown item of None \<Rightarrow> [] | Some t \<Rightarrow> t)"
  by (simp add: rich_text_to_markdown_def split: option.split)

text \<open>
  C7. A span of type equation renders as its expression between two dollar signs when the
  expression is not blank, and as the empty string when it is blank (made of whitespace
  characters of Unicode only), whatever its style flags, its text and its link are.
\<close>

theorem equation_span:
  "rt_type item = ''equation'' \<Longrightarrow>
   rich_text_to_markdown [item] =
     (if blank (expression item) then [] else ''$'' @ expression item @ ''$'')"
  by (simp add: render_single rich_text_item_to_markdown_def strip_empty_iff)

theorem equation_span_witness:
  "rt_type (styled_equation ''x^2'') = ''equation'' \<and>
   rich_text_to_markdown [styled_equation ''x^2''] = ''$x^2$'' \<and>
   rich_text_to_markdown [styled_equation '' x ''] = ''$ x $'' \<and>
   rich_text_to_markdown [styled_equation []] = [] \<and>
   rich_text_to_markdown [styled_equation [CHR 0x20, CHR 0x09, CHR 0x0A]] = [] \<and>
   rich_text_to_markdown [styled_equation [CHR 0xC2, CHR 0xA0]] = [] \<and>
   rich_text_to_markdown [styled_equation [CHR 0xE3, CHR 0x80, CHR 0x80, CHR 0x20]] = []"
proof -
  have s1: "strip ''x^2'' \<noteq> []" and s2: "strip '' x '' \<noteq> []"
    by code_simp+
  have s3: "strip [] = []" and s4: "strip [CHR 0x20, CHR 0x09, CHR 0x0A] = []"
    and s5: "strip [CHR 0xC2, CHR 0xA0] = []"
    and s6: "strip [CHR 0xE3, CHR 0x80, CHR 0x80, CHR 0x20] = []"
    by code_simp+
  note b = s1 [unfolded strip_empty_iff] s2 [unfolded strip_empty_iff]
    s3 [unfolded strip_empty_iff] s4 [unfolded strip_empty_iff]
    s5 [unfolded strip_empty_iff] s6 [unfolded strip_empty_iff]
  show ?thesis
    using b equation_span [of "styled_equation ''x^2''"]
      equation_span [of "styled_equation '' x ''"]
      equation_span [of "styled_equation []"]
      equation_span [of "styled_equation [CHR 0x20, CHR 0x09, CHR 0x0A]"]
      equation_span [of "styled_equation [CHR 0xC2, CHR 0xA0]"]
      equation_span [of "styled_equation [CHR 0xE3, CHR 0x80, CHR 0x80, CHR 0x20]"]
    by (simp add: styled_equation_def)
qed

text \<open>
  C2, as the code has it. For a plain span with a non-empty text, the wrappers the span asks
  for are applied in the order bold, italic, strikethrough, underline, inline code, link,
  each around the result of the ones before it: bold is the innermost wrapper and the link
  the outermost. A span with exactly bold and italic set renders as its text between two
  runs of three asterisks.
\<close>

theorem style_order:
  "rt_type item \<noteq> ''equation'' \<Longrightarrow> plain_text item \<noteq> [] \<Longrightarrow>
   rich_text_to_markdown [item] =
     wrap_innermost_first item (filter (has_style item) listed_order) (plain_text item) \<and>
   (filter (has_style item) listed_order = [Bold, Italic] \<longrightarrow>
      rich_text_to_markdown [item] = ''***'' @ plain_text item @ ''***'')"
  by (simp add: render_single rich_text_item_to_markdown_def wrap_innermost_first_def
      listed_order_def Let_def split: option.split)

theorem style_order_witness:
  "rt_type bold_italic \<noteq> ''equation'' \<and> plain_text bold_italic \<noteq> [] \<and>
   filter (has_style bold_italic) listed_order = [Bold, Italic] \<and>
   rich_text_to_markdown [bold_italic] = ''***text***''"
  using style_order [of bold_italic]
  by (simp add: bold_italic_def listed_order_def wrap_innermost_first_def)

text \<open>
  C2, as the specification states it, fails: with the listed order read from the outermost wrapper
  to the innermost, a bold inline-code span would have the asterisks outside the backquotes,
  and the code puts the backquotes outside the asterisks.
\<close>

theorem style_order_counterexample:
  "rt_type bold_code \<noteq> ''equation'' \<and> plain_text bold_code \<noteq> [] \<and>
   rich_text_to_markdown [bold_code] = ''`**t**`'' \<and>
   wrap_outermost_first bold_code (filter (has_style bold_code) listed_order)
     (plain_text bold_code) = ''**`t`**'' \<and>
   rich_text_to_markdown [bold_code] \<noteq>
     wrap_outermost_first bold_code (filter (has_style bold_code) listed_order)
       (plain_text bold_code)"
  by (simp add: bold_code_def render_single rich_text_item_to_markdown_def
      wrap_outermost_first_def listed_order_def)

section \<open>Images: results\<close>

text \<open>
  C10. An image block from which no URL is extracted renders as the empty string and
  leaves the session as it was: the counter is not incremented, no download is requested
  and no entry is added to the ledger. A list of blocks that starts with such a block
  (without children) is rendered, and numbered, as the list without it: the block takes no
  number.
\<close>

theorem image_without_url:
  "get_image_url image_block = [] \<Longrightarrow>
   image_block_to_markdown fetch images_dir image_block s = ([], s) \<and>
   block_to_markdown fetch images_dir (Block (Image image_block) hc ch) depth s = ([], s) \<and>
   blocks_lines fetch images_dir (Block (Image image_block) False ch # blocks) depth s =
     blocks_lines fetch images_dir blocks depth s"
  by (simp add: image_block_to_markdown_def block_to_markdown_def)

theorem image_without_url_witness:
  "get_image_url (external_image []) = [] \<and>
   image_block_to_markdown (\<lambda>u p. True) ''images'' (external_image []) new_session =
     ([], new_session)"
  using image_without_url [of "external_image []" "\<lambda>u p. True" "''images''" new_session]
  by (simp add: external_image_def get_image_url_def)

lemma image_markup_not_empty: "image_markup alt target \<noteq> []"
  by (simp add: image_markup_def)

lemma extract_plain_text_concat: "extract_plain_text rt = concat (map plain_text rt)"
  by (simp add: extract_plain_text_def join_empty_sep)

text \<open>
  C3. When the download of an image block fails, the block renders as an image whose
  target is the original URL and whose alternative text is the caption (empty when there
  is none), the ledger is left as it was, and the blocks after it are rendered as usual
  from the session the failed download leaves.
\<close>

theorem failed_download_falls_back:
  assumes "get_image_url image_block = url" and "url \<noteq> []"
    and "path = path_join images_dir
                  (''image_'' @ fmt_03d (image_counter s + 1) @ get_extension url)"
    and "\<not> fetch url path"
    and "s' = s\<lparr>image_counter := image_counter s + 1, requests := requests s @ [(url, path)]\<rparr>"
    and "md = ''!['' @ concat (map plain_text (caption image_block)) @ '']('' @ url @ '')''"
  shows "image_block_to_markdown fetch images_dir image_block s = (md, s') \<and>
         images s' = images s \<and>
         blocks_lines fetch images_dir (Block (Image image_block) False ch # blocks) depth s =
           (md # fst (blocks_lines fetch images_dir blocks depth s'),
            snd (blocks_lines fetch images_dir blocks depth s'))"
proof -
  have a: "image_block_to_markdown fetch images_dir image_block s = (md, s')"
    using assms
    by (simp add: image_block_to_markdown_def download_image_def Let_def image_markup_def
        extract_plain_text_concat)
  have b: "images s' = images s"
    using assms by simp
  have c: "block_to_markdown fetch images_dir (Block (Image image_block) False ch) depth s = (md, s')"
    using a by (simp add: block_to_markdown_def)
  have d: "md \<noteq> []"
    using assms by simp
  show ?thesis
    using a b c d by (simp add: Let_def)
qed

theorem failed_download_falls_back_witness:
  "get_image_url captioned_image = ''http://a/b.png'' \<and>
   image_block_to_markdown (\<lambda>u p. False) ''images'' captioned_image used_session =
     (''![A cat](http://a/b.png)'',
      \<lparr>images = [\<lparr>original_url = ''http://a/c.gif'', local_path = ''images/cover.gif'',
                   res_type = ''cover''\<rparr>],
       image_counter = 5,
       requests = [(''http://a/c.gif'', ''images/cover.gif''),
                   (''http://a/b.png'', ''images/image_005.png'')]\<rparr>) \<and>
   fst (blocks_lines (\<lambda>u p. False) ''images''
          [Block (Image captioned_image) False [], Block (Paragraph [plain ''after'']) False []]
          0 used_session) =
     [''![A cat](http://a/b.png)'', ''after'']"
proof -
  have u: "get_image_url captioned_image = ''http://a/b.png''"
    by (simp add: captioned_image_def get_image_url_def)
  have ne: "''http://a/b.png'' \<noteq> []"
    by simp
  have p: "path_join ''images''
             (''image_'' @ fmt_03d (image_counter used_session + 1) @
              get_extension ''http://a/b.png'') = ''images/image_005.png''"
    by code_simp
  have f: "\<not> (\<lambda>u p. False) ''http://a/b.png'' ''images/image_005.png''"
    by simp
  have r: "fst (blocks_lines (\<lambda>u p. False) ''images'' [Block (Paragraph [plain ''after'']) False []]
                  0 s) = [''after'']" for s
    by (simp add: block_to_markdown_def rich_text_to_markdown_def rich_text_item_to_markdown_def
        plain_def Let_def)
  note w = failed_download_falls_back [where image_block = captioned_image
        and fetch = "\<lambda>u p. False" and images_dir = "''images''" and s = used_session
        and ch = "[]" and blocks = "[Block (Paragraph [plain ''after'']) False []]"
        and depth = 0, OF u ne p [symmetric] f refl refl]
  show ?thesis
    using u w r by (simp add: used_session_def captioned_image_def plain_def)
qed

section \<open>Blocks: results\<close>

lemma child_depth_cases:
  "child_depth p depth = (if is_list_item p then depth + 1 else depth)"
  by (cases p) (simp_all add: child_depth_def is_list_item_def)

lemma list_item_indent:
  "is_list_item p \<Longrightarrow>
   block_to_markdown fetch images_dir (Block p hc ch) depth s =
     (indent_of depth @ fst (block_to_markdown fetch images_dir (Block p hc ch) 0 s), s)"
  by (cases p) (simp_all add: is_list_item_def block_to_markdown_def indent_of_def)

lemma other_kinds_no_indent:
  "\<not> is_list_item p \<Longrightarrow>
   block_to_markdown fetch images_dir (Block p hc ch) depth s =
     block_to_markdown fetch images_dir (Block p hc ch) 0 s"
  by (cases p) (simp_all add: is_list_item_def block_to_markdown_def)

text \<open>
  C4. The children of a block are rendered at depth plus one exactly when the block is a
  bulleted item, a numbered item or a to-do, and at the same depth otherwise. A list item
  at a depth renders as two spaces repeated depth times followed by its rendering at depth
  zero; every other kind renders at any depth as it does at depth zero.
\<close>

theorem depth_and_indentation:
  "(child_depth p depth = depth + 1 \<longleftrightarrow> is_list_item p) \<and>
   (\<not> is_list_item p \<longrightarrow> child_depth p depth = depth) \<and>
   blocks_lines fetch images_dir (Block p True ch # blocks) depth s =
     (let r1 = block_to_markdown fetch images_dir (Block p True ch) depth s;
          rc = blocks_to_markdown fetch images_dir ch
                 (if is_list_item p then depth + 1 else depth) (snd r1);
          r3 = blocks_lines fetch images_dir blocks depth (snd rc)
      in ((if fst r1 \<noteq> [] then [fst r1] else []) @ (if fst rc \<noteq> [] then [fst rc] else []) @
          fst r3, snd r3)) \<and>
   (is_list_item p \<longrightarrow>
      block_to_markdown fetch images_dir (Block p hc ch) depth s =
        (concat (replicate depth ''  '') @
           fst (block_to_markdown fetch images_dir (Block p hc ch) 0 s), s)) \<and>
   (\<not> is_list_item p \<longrightarrow>
      block_to_markdown fetch images_dir (Block p hc ch) depth s =
        block_to_markdown fetch images_dir (Block p hc ch) 0 s)"
proof -
  have rec: "blocks_lines fetch images_dir (Block p True ch # blocks) depth s =
     (let r1 = block_to_markdown fetch images_dir (Block p True ch) depth s;
          rc = blocks_to_markdown fetch images_dir ch
                 (if is_list_item p then depth + 1 else depth) (snd r1);
          r3 = blocks_lines fetch images_dir blocks depth (snd rc)
      in ((if fst r1 \<noteq> [] then [fst r1] else []) @ (if fst rc \<noteq> [] then [fst rc] else []) @
          fst r3, snd r3))"
    by (simp add: Let_def blocks_to_markdown_def child_depth_cases)
  have li: "is_list_item p \<longrightarrow>
      block_to_markdown fetch images_dir (Block p hc ch) depth s =
        (concat (replicate depth ''  '') @
           fst (block_to_markdown fetch images_dir (Block p hc ch) 0 s), s)"
    using list_item_indent [of p fetch images_dir hc ch depth s] by (simp add: indent_of_def)
  show ?thesis
    using rec li other_kinds_no_indent [of p fetch images_dir hc ch depth s]
    by (simp add: child_depth_cases)
qed

theorem depth_and_indentation_witness:
  "is_list_item (Bulleted_list_item [plain ''a'']) \<and>
   \<not> is_list_item (Quote [plain ''q'']) \<and>
   child_depth (Bulleted_list_item [plain ''a'']) 0 = 1 \<and>
   child_depth (Quote [plain ''q'']) 1 = 1 \<and>
   fst (blocks_to_markdown (\<lambda>u p. True) ''images'' nested_todo 0 new_session) =
     ''- a'' @ [nl, nl] @ ''  - [x] Ship it''"
  using depth_and_indentation [of "Bulleted_list_item [plain ''a'']" 0 "\<lambda>u p. True" "''images''"
      "[Block (To_do True [plain ''Ship it'']) False []]" "[]" new_session False]
    depth_and_indentation [of "Quote [plain ''q'']" 1 "\<lambda>u p. True" "''images''" "[]" "[]"
      new_session False]
  by (simp add: is_list_item_def nested_todo_def blocks_to_markdown_def block_to_markdown_def
      rich_text_to_markdown_def rich_text_item_to_markdown_def plain_def Let_def indent_of_def
      child_depth_def)

section \<open>Tables: results\<close>

lemma table_rows_later: "table_rows (Suc i) rows = row_lines rows"
  by (induction rows arbitrary: i) (simp_all split: payload.split add: Let_def row_line_def)

text \<open>
  When the first child fetched for a table is a table row, its line is followed at once by
  a separator with one column for each of its cells, and no other separator is emitted.
\<close>

lemma table_first_child_row:
  "table_to_markdown (Block Table hc (Block (Table_row cells) hc' ch' # rows)) =
     join [nl] (row_line cells # separator_line (length cells) # row_lines rows)"
  by (simp add: table_to_markdown_def row_line_def separator_line_def Let_def table_rows_later)

text \<open>
  C5. The separator is to follow the first row of every table that has a row. The code
  emits it at index 0 of the fetched children only: for a table whose first fetched child
  is not a table row and whose second child is a row with one cell, the output is the line
  of that row alone, with no separator.
\<close>

theorem table_separator_missing:
  "table_to_markdown skipped_first_child = ''| a |''"
  by (simp add: skipped_first_child_def table_to_markdown_def plain_def rich_text_to_markdown_def
      rich_text_item_to_markdown_def replace_char_def nl_def)

section \<open>The page: results\<close>

lemma replace_first_starts:
  "starts_with old s \<Longrightarrow> replace_first old new s = new @ drop (length old) s"
  by (cases s) (cases old; simp)+

lemma replace_first_prefix: "replace_first old new (old @ rest) = new @ rest"
  by (simp add: replace_first_starts starts_with_append)

lemma replace_first_absent: "\<not> contains old s \<Longrightarrow> replace_first old new s = s"
  by (induction s) auto

lemma process_page_markdown:
  "markdown (fst (process_page fetch dir pg s)) =
     add_cover (page_title pg) (page_cover fetch dir pg s)
       (add_title (page_title pg) (page_body fetch dir pg s))"
  by (simp add: process_page_def page_title_def page_cover_def page_body_def after_cover_def
      Let_def split: prod.split)

lemma page_cover_not_empty: "page_cover fetch dir pg s = Some c \<Longrightarrow> c \<noteq> []"
  by (auto simp: page_cover_def process_cover_def download_image_def path_join_def Let_def
      split: option.splits if_splits)

text \<open>
  With a title and a downloaded cover, the document of \<open>_process_page\<close> is the title heading,
  a blank line, the cover markup, a blank line and the body: the markup stands once, right
  after the title block.
\<close>

lemma cover_follows_title:
  assumes "page_title pg \<noteq> []" and "page_cover fetch dir pg s = Some c"
  shows "markdown (fst (process_page fetch dir pg s)) =
           ''# '' @ page_title pg @ [nl, nl] @ ''![cover]('' @ c @ '')'' @ [nl, nl] @
           page_body fetch dir pg s"
proof -
  have "c \<noteq> []"
    using assms(2) by (rule page_cover_not_empty)
  then have "add_cover (page_title pg) (Some c) (add_title (page_title pg) (page_body fetch dir pg s)) =
               title_block (page_title pg) @ cover_markup c @ page_body fetch dir pg s"
    using assms(1) by (simp add: add_cover_def add_title_def replace_first_prefix)
  then show ?thesis
    by (simp add: process_page_markdown assms(2) title_block_def cover_markup_def)
qed

text \<open>
  Without a title, the downloaded cover is left out of the document when the body nowhere
  contains a number sign, a space and two line feeds in a row.
\<close>

lemma cover_dropped_without_title:
  assumes "page_title pg = []" and "page_cover fetch dir pg s = Some c"
    and "\<not> contains (''# '' @ [nl, nl]) (page_body fetch dir pg s)"
  shows "markdown (fst (process_page fetch dir pg s)) = page_body fetch dir pg s"
  using assms
  by (simp add: process_page_markdown add_cover_def add_title_def replace_first_absent
      title_block_def)

text \<open>
  C6. Without a title the downloaded cover is to be left out of the body. The code, under
  the comment that the cover goes after the title, replaces the first occurrence of the
  title block, which for an empty title is a number sign, a space and a blank line: for a
  page without a title whose body starts with an empty second-level heading followed by a
  paragraph, it inserts the cover after that heading.
\<close>

theorem cover_inserted_without_title:
  "title (fst (process_page (\<lambda>u p. True) ''out/images'' untitled_page new_session)) = [] \<and>
   cover_image (fst (process_page (\<lambda>u p. True) ''out/images'' untitled_page new_session)) =
     Some ''out/images/cover.png'' \<and>
   markdown (fst (process_page (\<lambda>u p. True) ''out/images'' untitled_page new_session)) =
     ''## '' @ [nl, nl] @ ''![cover](out/images/cover.png)'' @ [nl, nl] @ ''x''"
  by code_simp

section \<open>Image numbering: results\<close>

lemma numbered_requests_append:
  "numbered_requests dir c (xs @ ys) =
     numbered_requests dir c xs @ numbered_requests dir (c + length xs) ys"
  by (simp add: numbered_requests_def enumerate_append_eq add.commute add.left_commute)

lemma image_block_effect:
  "image_counter (snd (image_block_to_markdown fetch dir ib s)) =
     image_counter s + length (own_image_urls (Image ib)) \<and>
   requests (snd (image_block_to_markdown fetch dir ib s)) =
     requests s @ numbered_requests dir (image_counter s) (own_image_urls (Image ib))"
  by (simp add: image_block_to_markdown_def own_image_urls_def numbered_requests_def
      image_path_def download_image_def Let_def)

lemma block_effect:
  "image_counter (snd (block_to_markdown fetch dir (Block p hc ch) depth s)) =
     image_counter s + length (own_image_urls p) \<and>
   requests (snd (block_to_markdown fetch dir (Block p hc ch) depth s)) =
     requests s @ numbered_requests dir (image_counter s) (own_image_urls p)"
proof (cases p)
  case (Image ib)
  then show ?thesis
    using image_block_effect [of fetch dir ib s] by (simp add: block_to_markdown_def)
qed (simp_all add: block_to_markdown_def own_image_urls_def numbered_requests_def Let_def)

lemma blocks_lines_effect:
  "image_counter (snd (blocks_lines fetch dir blocks depth s)) =
     image_counter s + length (image_urls blocks) \<and>
   requests (snd (blocks_lines fetch dir blocks depth s)) =
     requests s @ numbered_requests dir (image_counter s) (image_urls blocks)"
proof (induction fetch dir blocks depth s rule: blocks_lines.induct)
  case (1 fetch dir depth s)
  show ?case by (simp add: numbered_requests_def)
next
  case (2 fetch dir p hc ch blocks depth s)
  let ?r1 = "block_to_markdown fetch dir (Block p hc ch) depth s"
  let ?s1 = "snd ?r1"
  let ?rc = "blocks_lines fetch dir ch (child_depth p depth) ?s1"
  let ?s2 = "if hc then snd ?rc else ?s1"
  let ?kids = "if hc then image_urls ch else []"
  have b: "image_counter ?s1 = image_counter s + length (own_image_urls p)"
          "requests ?s1 = requests s @ numbered_requests dir (image_counter s) (own_image_urls p)"
    using block_effect [of fetch dir p hc ch depth s] by simp_all
  have c: "image_counter ?s2 = image_counter ?s1 + length ?kids \<and>
           requests ?s2 = requests ?s1 @ numbered_requests dir (image_counter ?s1) ?kids"
  proof (cases hc)
    case True
    then show ?thesis using "2.IH"(1) [OF refl refl True] by simp
  next
    case False
    then show ?thesis by (simp add: numbered_requests_def)
  qed
  have r: "snd (blocks_lines fetch dir (Block p hc ch # blocks) depth s) =
           snd (blocks_lines fetch dir blocks depth ?s2)"
    by (simp add: Let_def)
  have d: "image_counter (snd (blocks_lines fetch dir blocks depth ?s2)) =
             image_counter ?s2 + length (image_urls blocks) \<and>
           requests (snd (blocks_lines fetch dir blocks depth ?s2)) =
             requests ?s2 @ numbered_requests dir (image_counter ?s2) (image_urls blocks)"
    using "2.IH"(2) [OF refl refl refl] by (simp add: Let_def split: if_splits)
  show ?case
    unfolding r using b c d
    by (simp add: numbered_requests_append add.assoc)
qed

lemma process_cover_counter:
  "image_counter (snd (process_cover fetch dir cov s)) = image_counter s"
  by (simp add: process_cover_def download_image_def Let_def split: option.split)

lemma process_page_session:
  "snd (process_page fetch dir pg s) =
     snd (blocks_lines fetch dir (content pg) 0 (after_cover fetch dir pg s))"
  by (simp add: process_page_def blocks_to_markdown_def after_cover_def Let_def split: prod.split)

text \<open>
  C1, as the code has it. In every conversion of a page the counter starts at 0, and the
  image blocks from which a URL is extracted are numbered 1, 2, 3 and so on in the order of
  the traversal: the download requested for the Nth of them goes to the file whose name is
  \<open>image_\<close>, N in three digits at least, and the extension of its URL, whatever the outcome
  of this or any other download; at the end the counter is the number of such blocks.
\<close>

theorem image_numbering:
  "image_counter (snd (process_page fetch dir pg s)) = length (image_urls (content pg)) \<and>
   requests (snd (process_page fetch dir pg s)) =
     requests (after_cover fetch dir pg s) @
     map (\<lambda>(n, url). (url, path_join dir (''image_'' @ fmt_03d n @ get_extension url)))
       (enumerate 1 (image_urls (content pg)))"
  using blocks_lines_effect [of fetch dir "content pg" 0 "after_cover fetch dir pg s"]
    process_cover_counter [of fetch dir "cover pg" "s\<lparr>images := [], image_counter := 0\<rparr>"]
  by (simp add: process_page_session numbered_requests_def image_path_def after_cover_def)

text \<open>
  C1, as the specification states it, fails: in a page whose first image block has no URL and whose
  second image block has one, the second image block encountered is given the counter
  value 1 and the file \<open>image_001\<close>, not 2 and \<open>image_002\<close>.
\<close>

theorem image_numbering_counterexample:
  "requests (snd (process_page (\<lambda>u p. True) ''out/images'' (page_of two_image_blocks)
               new_session)) =
     [(''http://a/b.png'', ''out/images/image_001.png'')] \<and>
   markdown (fst (process_page (\<lambda>u p. True) ''out/images'' (page_of two_image_blocks)
               new_session)) =
     ''![](out/images/image_001.png)'' \<and>
   image_counter (snd (process_page (\<lambda>u p. True) ''out/images'' (page_of two_image_blocks)
               new_session)) \<noteq> 2"
  by code_simp

section \<open>Extension inference: results\<close>

lemma lower_char_dot: "lower_char c = CHR ''.'' \<longleftrightarrow> c = CHR ''.''"
proof
  assume a: "lower_char c = CHR ''.''"
  show "c = CHR ''.''"
  proof (cases "65 \<le> (of_char c :: nat) \<and> (of_char c :: nat) \<le> 90")
    case True
    then have "char_of ((of_char c :: nat) + 32) = CHR ''.''"
      using a by (simp add: lower_char_def Let_def)
    then have "(of_char (char_of ((of_char c :: nat) + 32)) :: nat) = of_char CHR ''.''"
      by simp
    then have "((of_char c :: nat) + 32) mod 256 = 46"
      by (simp only: of_char_of) simp
    with True show ?thesis by simp
  next
    case False
    then show ?thesis using a by (auto simp add: lower_char_def Let_def)
  qed
next
  assume "c = CHR ''.''"
  then show "lower_char c = CHR ''.''" by (simp add: lower_char_def)
qed

lemma lower_char_slash: "lower_char CHR ''/'' = CHR ''/''"
  by (simp add: lower_char_def)

lemma lower_char_dot_self: "lower_char CHR ''.'' = CHR ''.''"
  by (simp add: lower_char_def)

lemma takeWhile_neq_prefix:
  "c \<notin> set b \<Longrightarrow>
   takeWhile (\<lambda>x. x \<noteq> c) (rev b @ ys) = rev b @ takeWhile (\<lambda>x. x \<noteq> c) ys"
  by (rule takeWhile_append2) auto

lemma takeWhile_neq_all:
  "c \<notin> set s \<Longrightarrow> takeWhile (\<lambda>x. x \<noteq> c) (rev s) = rev s"
  by (auto simp add: takeWhile_eq_all_conv)

lemma length_takeWhile_neq_less:
  assumes "c \<in> set s"
  shows "length (takeWhile (\<lambda>x. x \<noteq> c) (rev s)) < length s"
proof -
  let ?t = "takeWhile (\<lambda>x. x \<noteq> c) (rev s)"
  let ?d = "dropWhile (\<lambda>x. x \<noteq> c) (rev s)"
  have "?d \<noteq> []"
    using assms by (auto simp add: dropWhile_eq_Nil_conv)
  moreover have "length ?t + length ?d = length s"
  proof -
    have "length ?t + length ?d = length (?t @ ?d)"
      by (simp only: length_append)
    also have "\<dots> = length (rev s)"
      by (simp only: takeWhile_dropWhile_id)
    finally show ?thesis
      by (simp only: length_rev)
  qed
  ultimately show ?thesis by (cases ?d) auto
qed

lemma rfind_bounds: "- 1 \<le> rfind c s \<and> rfind c s < int (length s)"
  using length_takeWhile_neq_less [of c s] by (auto simp add: rfind_def)

lemma rfind_last: "c \<notin> set b \<Longrightarrow> rfind c (a @ c # b) = int (length a)"
  by (simp add: rfind_def takeWhile_neq_prefix)

lemma rfind_skip: "c \<notin> set b \<Longrightarrow> rfind c (a @ b) = rfind c a"
  by (simp add: rfind_def takeWhile_neq_prefix)

lemma drop_rfind: "drop (nat (rfind c s + 1)) s = rev (takeWhile (\<lambda>x. x \<noteq> c) (rev s))"
proof (cases "c \<in> set s")
  case True
  let ?k = "length (takeWhile (\<lambda>x. x \<noteq> c) (rev s))"
  have k: "?k \<le> length s" using length_takeWhile_le [of _ "rev s"] by simp
  have "nat (rfind c s + 1) = length s - ?k"
    using True k by (simp add: rfind_def)
  moreover have "drop (length s - ?k) s = rev (take ?k (rev s))"
    by (simp add: take_rev)
  moreover have "take ?k (rev s) = takeWhile (\<lambda>x. x \<noteq> c) (rev s)"
    using takeWhile_eq_take [of "\<lambda>x. x \<noteq> c" "rev s"] by simp
  ultimately show ?thesis by simp
next
  case False
  then show ?thesis by (simp add: rfind_def takeWhile_neq_all)
qed

lemma splitext_decomp:
  assumes "CHR ''.'' \<notin> set b" and "CHR ''/'' \<notin> set b"
  shows "splitext_ext (a @ CHR ''.'' # b) =
           (if list_ex (\<lambda>c. c \<noteq> CHR ''.'') (last_component a) then CHR ''.'' # b else [])"
proof -
  let ?p = "a @ CHR ''.'' # b"
  have dot: "rfind CHR ''.'' ?p = int (length a)"
    using assms(1) by (rule rfind_last)
  have sep: "rfind CHR ''/'' ?p = rfind CHR ''/'' a"
    using assms(2) rfind_skip [of "CHR ''/''" "CHR ''.'' # b" a] by simp
  have lt: "rfind CHR ''/'' a < int (length a)" and ge: "- 1 \<le> rfind CHR ''/'' a"
    using rfind_bounds [of "CHR ''/''" a] by simp_all
  have "slice ?p (rfind CHR ''/'' a + 1) (int (length a)) = drop (nat (rfind CHR ''/'' a + 1)) a"
    using lt ge by (simp add: slice_def nat_diff_distrib nat_add_distrib)
  then have sl: "slice ?p (rfind CHR ''/'' a + 1) (int (length a)) = last_component a"
    by (simp add: drop_rfind last_component_def)
  show ?thesis
    using lt by (simp add: splitext_ext_def dot sep sl Let_def)
qed


lemma lower_length: "length (lower s) = length s"
  by (simp add: lower_def)

lemma lower_tail_free:
  assumes "lower b = r" and "CHR ''.'' \<notin> set r" and "CHR ''/'' \<notin> set r"
  shows "CHR ''.'' \<notin> set b \<and> CHR ''/'' \<notin> set b"
proof -
  have "lower_char c \<in> set r" if "c \<in> set b" for c
    using that assms(1) by (auto simp: lower_def)
  from this [of "CHR ''.''"] this [of "CHR ''/''"] assms(2,3) show ?thesis
    by (auto simp: lower_char_slash lower_char_dot_self)
qed


lemma splitext_iff_has_extension:
  assumes "ext_shape e"
  shows "lower (splitext_ext p) = e \<longleftrightarrow> has_extension p e"
proof -
  from assms obtain r where e: "e = CHR ''.'' # r" and r: "CHR ''.'' \<notin> set r" "CHR ''/'' \<notin> set r"
    by (auto simp: ext_shape_def split: list.splits)
  show ?thesis
  proof
    assume h: "has_extension p e"
    let ?a = "take (length p - length e) p"
    let ?x = "drop (length p - length e) p"
    have lx: "lower ?x = CHR ''.'' # r" using h e by (simp add: has_extension_def ends_with_ci_def)
    then obtain c b where x: "?x = c # b" by (cases ?x) (auto simp: lower_def)
    with lx have c: "lower_char c = CHR ''.''" and b: "lower b = r" by (simp_all add: lower_def)
    from c have c': "c = CHR ''.''" by (simp add: lower_char_dot)
    have free: "CHR ''.'' \<notin> set b \<and> CHR ''/'' \<notin> set b"
      using lower_tail_free [OF b r] .
    have p: "p = ?a @ CHR ''.'' # b" using x c' append_take_drop_id [of "length p - length e" p] by simp
    have "splitext_ext (?a @ CHR ''.'' # b) = CHR ''.'' # b"
      using free h by (simp add: splitext_decomp has_extension_def ends_with_ci_def)
    then have "splitext_ext p = CHR ''.'' # b" using p by simp
    then show "lower (splitext_ext p) = e" using b e by (simp add: lower_def lower_char_dot)
  next
    assume l: "lower (splitext_ext p) = e"
    then have ne: "splitext_ext p \<noteq> []" using e by (auto simp: lower_def)
    then have "rfind CHR ''/'' p < rfind CHR ''.'' p"
      by (auto simp: splitext_ext_def Let_def split: if_splits)
    then have "CHR ''.'' \<in> set p"
      using rfind_bounds [of "CHR ''/''" p] by (auto simp: rfind_def split: if_splits)
    from split_list_last [OF this] obtain a b
      where p: "p = a @ CHR ''.'' # b" and b: "CHR ''.'' \<notin> set b"
      by blast
    have dot: "rfind CHR ''.'' (a @ CHR ''.'' # b) = int (length a)"
      using b by (rule rfind_last)
    have ne': "splitext_ext (a @ CHR ''.'' # b) \<noteq> []"
      using ne unfolding p .
    have sx': "splitext_ext (a @ CHR ''.'' # b) = CHR ''.'' # b"
    proof (rule ccontr)
      assume "splitext_ext (a @ CHR ''.'' # b) \<noteq> CHR ''.'' # b"
      then have "splitext_ext (a @ CHR ''.'' # b) = []"
        unfolding splitext_ext_def Let_def dot by (simp split: if_splits)
      with ne' show False by simp
    qed
    have sx: "splitext_ext p = CHR ''.'' # b"
      using sx' unfolding p .
    have lb: "lower b = r"
      using l e unfolding sx by (simp add: lower_def)
    have free: "CHR ''.'' \<notin> set b \<and> CHR ''/'' \<notin> set b"
      using lower_tail_free [OF lb r] .
    have len: "length e = Suc (length b)"
      using lb e lower_length [of b] by simp
    have tk: "take (length p - length e) p = a"
      and dr: "drop (length p - length e) p = CHR ''.'' # b"
      unfolding p len by simp_all
    have le: "length e \<le> length p"
      unfolding p len by simp
    have lc: "list_ex (\<lambda>c. c \<noteq> CHR ''.'') (last_component a)"
    proof (rule ccontr)
      assume "\<not> list_ex (\<lambda>c. c \<noteq> CHR ''.'') (last_component a)"
      then have "splitext_ext (a @ CHR ''.'' # b) = []"
        using free by (simp add: splitext_decomp)
      with ne' show False by simp
    qed
    have "lower (drop (length p - length e) p) = e"
      using l unfolding sx dr .
    with le lc show "has_extension p e"
      unfolding has_extension_def ends_with_ci_def tk by simp
  qed
qed


lemma splitext_nonempty_dot: "splitext_ext p \<noteq> [] \<Longrightarrow> CHR ''.'' \<in> set p"
proof -
  assume "splitext_ext p \<noteq> []"
  then have "rfind CHR ''/'' p < rfind CHR ''.'' p"
    by (auto simp: splitext_ext_def Let_def split: if_splits)
  then show ?thesis
    using rfind_bounds [of "CHR ''/''" p] by (auto simp: rfind_def split: if_splits)
qed

lemma image_exts_shape: "e \<in> set image_exts \<Longrightarrow> ext_shape e"
  by (auto simp: image_exts_def ext_shape_def)

lemma get_extension_alt:
  "get_extension url =
     (if lower (splitext_ext (without_query url)) \<in> set image_exts
      then lower (splitext_ext (without_query url))
      else if cloud_origin url then ''.png'' else ''.jpg'')"
proof -
  have "CHR ''.'' \<in> set (without_query url)"
    if "lower (splitext_ext (without_query url)) \<in> set image_exts"
  proof -
    from that have "lower (splitext_ext (without_query url)) \<noteq> []"
      by (auto simp: image_exts_def)
    then have "splitext_ext (without_query url) \<noteq> []"
      by (auto simp: lower_def)
    then show ?thesis by (rule splitext_nonempty_dot)
  qed
  then show ?thesis
    by (auto simp: get_extension_def without_query_def cloud_origin_def Let_def)
qed

text \<open>
  C9, as the code has it. The query string is stripped first. If what remains ends, up to
  the case of ASCII letters, in one of the six extensions, and the part of its last
  component (after the last slash) that precedes the extension has a character other than
  a dot, that extension is returned in lower case. If it does so for none of the six, the
  result is \<open>.png\<close> when the URL contains \<open>amazonaws.com\<close> or \<open>notion\<close>, and \<open>.jpg\<close>
  otherwise.
\<close>

theorem extension_inference:
  "(\<forall>e\<in>set image_exts. has_extension (without_query url) e \<longrightarrow> get_extension url = e) \<and>
   ((\<forall>e\<in>set image_exts. \<not> has_extension (without_query url) e) \<and> cloud_origin url \<longrightarrow>
      get_extension url = ''.png'') \<and>
   ((\<forall>e\<in>set image_exts. \<not> has_extension (without_query url) e) \<and> \<not> cloud_origin url \<longrightarrow>
      get_extension url = ''.jpg'')"
proof -
  let ?x = "lower (splitext_ext (without_query url))"
  have iff: "?x = e \<longleftrightarrow> has_extension (without_query url) e" if "e \<in> set image_exts" for e
    using splitext_iff_has_extension [OF image_exts_shape [OF that]] .
  have a: "get_extension url = e" if "e \<in> set image_exts" "has_extension (without_query url) e" for e
  proof -
    from that iff have "?x = e" by blast
    with that(1) show ?thesis by (simp add: get_extension_alt)
  qed
  have b: "?x \<notin> set image_exts" if "\<forall>e\<in>set image_exts. \<not> has_extension (without_query url) e"
    using that iff by blast
  show ?thesis
    using a b by (auto simp: get_extension_alt)
qed

theorem extension_inference_witness:
  "''.png'' \<in> set image_exts \<and>
   has_extension (without_query ''https://example.com/a.PNG?x=1.gif'') ''.png'' \<and>
   get_extension ''https://example.com/a.PNG?x=1.gif'' = ''.png'' \<and>
   list_all (\<lambda>e. \<not> has_extension (without_query ''https://s3.amazonaws.com/a.b/c'') e)
     image_exts \<and>
   cloud_origin ''https://s3.amazonaws.com/a.b/c'' \<and>
   get_extension ''https://s3.amazonaws.com/a.b/c'' = ''.png'' \<and>
   list_all (\<lambda>e. \<not> has_extension (without_query ''https://example.com/x'') e) image_exts \<and>
   \<not> cloud_origin ''https://example.com/x'' \<and>
   get_extension ''https://example.com/x'' = ''.jpg''"
proof -
  have h1: "''.png'' \<in> set image_exts"
    by (simp add: image_exts_def)
  have h2: "has_extension (without_query ''https://example.com/a.PNG?x=1.gif'') ''.png''"
    by code_simp
  have h3: "list_all (\<lambda>e. \<not> has_extension (without_query ''https://s3.amazonaws.com/a.b/c'') e)
              image_exts"
    by code_simp
  have h4: "cloud_origin ''https://s3.amazonaws.com/a.b/c''"
    by code_simp
  have h5: "list_all (\<lambda>e. \<not> has_extension (without_query ''https://example.com/x'') e) image_exts"
    by code_simp
  have h6: "\<not> cloud_origin ''https://example.com/x''"
    by code_simp
  have g1: "get_extension ''https://example.com/a.PNG?x=1.gif'' = ''.png''"
    using h1 h2 extension_inference [of "''https://example.com/a.PNG?x=1.gif''"] by blast
  have g2: "get_extension ''https://s3.amazonaws.com/a.b/c'' = ''.png''"
    using h3 h4 extension_inference [of "''https://s3.amazonaws.com/a.b/c''"]
    unfolding list_all_iff by blast
  have g3: "get_extension ''https://example.com/x'' = ''.jpg''"
    using h5 h6 extension_inference [of "''https://example.com/x''"]
    unfolding list_all_iff by blast
  show ?thesis
    using h1 h2 h3 h4 h5 h6 g1 g2 g3 by blast
qed

text \<open>
  C9, as the specification states it, fails: a URL whose path ends in \<open>/.png\<close> ends in a listed
  extension, and the code returns \<open>.jpg\<close> for it, since the library takes a name that
  starts with its only dot to have no extension.
\<close>

theorem extension_inference_counterexample:
  "ends_with_ci (without_query ''https://example.com/.png'') ''.png'' \<and>
   get_extension ''https://example.com/.png'' = ''.jpg'' \<and>
   get_extension ''https://example.com/.png'' \<noteq> ''.png''"
  by code_simp

end
